theory Spec2Isabelle
  imports Complex_Main
begin

section \<open>Numbers\<close>

text \<open>
  The program computes on IEEE doubles, in JavaScript inside the page and in Python
  outside it. They are idealised here as exact rationals: every finite number is a
  \<^typ>\<open>rat\<close>, arithmetic is exact, and the two things a double can do that a rational
  cannot are written out where the code can meet them: a quotient with a zero denominator
  and a read past the end of an array (in JavaScript neither raises by itself: the first
  yields NaN or an infinity, the second \<open>undefined\<close>) are faults of the model, and
  Python's NaN is a value of its own in \<open>safe_round\<close>.
\<close>

datatype js_fault = ZeroDenominator | UndefinedRead

definition and_then :: "'e + 'a \<Rightarrow> ('a \<Rightarrow> 'e + 'b) \<Rightarrow> 'e + 'b" where
  "and_then r f = (case r of Inl e \<Rightarrow> Inl e | Inr v \<Rightarrow> f v)"

definition js_div :: "rat \<Rightarrow> rat \<Rightarrow> js_fault + rat" where
  "js_div a b = (if b = 0 then Inl ZeroDenominator else Inr (a / b))"

definition js_index :: "'a list \<Rightarrow> int \<Rightarrow> js_fault + 'a" where
  "js_index xs i = (if 0 \<le> i \<and> nat i < length xs then Inr (xs ! nat i) else Inl UndefinedRead)"

text \<open>
  \<open>Number(x.toFixed(k))\<close>: the decimal with \<open>k\<close> fraction digits nearest to \<open>x\<close>, the
  larger in magnitude of two equally near ones; from \<open>10^21\<close> on, \<open>toFixed\<close> prints the
  number itself.
\<close>

definition toFixed :: "rat \<Rightarrow> nat \<Rightarrow> rat" where
  "toFixed x k =
     (if 10 ^ 21 \<le> \<bar>x\<bar> then x
      else if x < 0 then - (of_int \<lfloor>(- x) * 10 ^ k + 1 / 2\<rfloor> / 10 ^ k)
      else of_int \<lfloor>x * 10 ^ k + 1 / 2\<rfloor> / 10 ^ k)"

section \<open>Frame statistics of the in-page samplers\<close>

text \<open>
  \<open>FPS_SAMPLE_JS\<close> (lines 86--106) and \<open>TRANSITION_FPS_JS\<close> (lines 166--190) reduce the
  captured frame timestamps with the same text.
\<close>

record fps_sample =
  avgFps :: rat
  p95FrameMs :: rat
  droppedFrameRatio :: rat
  totalFrames :: nat
  sampleDurationMs :: rat

text \<open>\<open>for (let i = 1; i < stamps.length; i += 1) frameDeltas.push(stamps[i] - stamps[i - 1])\<close>\<close>

fun frameDeltas :: "rat list \<Rightarrow> rat list" where
  "frameDeltas (a # b # stamps) = (b - a) # frameDeltas (b # stamps)"
| "frameDeltas stamps = []"

text \<open>\<open>frameDeltas.reduce((sum, v) => sum + v, 0)\<close>\<close>

definition duration :: "rat list \<Rightarrow> rat" where
  "duration deltas = foldl (\<lambda>sum v. sum + v) 0 deltas"

text \<open>\<open>duration > 0 ? (frameDeltas.length / duration) * 1000 : 0\<close>\<close>

definition fps :: "rat list \<Rightarrow> js_fault + rat" where
  "fps deltas =
     (if duration deltas > 0
      then and_then (js_div (of_nat (length deltas)) (duration deltas)) (\<lambda>q. Inr (q * 1000))
      else Inr 0)"

text \<open>
  \<open>sorted.length > 0 ? Math.max(0, Math.ceil(sorted.length * 0.95) - 1) : 0\<close>. The double
  nearest to 0.95 lies just below it, by less than \<open>10^-16\<close>; for every array length a
  browser can hold, the ceiling of the product in doubles is the ceiling of the exact
  product with 95/100, which is what is written here.
\<close>

definition p95Idx :: "nat \<Rightarrow> int" where
  "p95Idx n = (if n > 0 then max 0 (\<lceil>of_nat n * (95 / 100 :: rat)\<rceil> - 1) else 0)"

text \<open>
  \<open>[...frameDeltas].sort((a, b) => a - b)\<close> is the ascending sort;
  \<open>sorted.length > 0 ? sorted[p95Idx] : 0\<close>.
\<close>

definition p95FrameMs_val :: "rat list \<Rightarrow> js_fault + rat" where
  "p95FrameMs_val deltas =
     (let sorted = sort deltas
      in if length sorted > 0 then js_index sorted (p95Idx (length sorted)) else Inr 0)"

text \<open>
  \<open>frameDeltas.length > 0 ? frameDeltas.filter((d) => d > 24).length / frameDeltas.length : 0\<close>
\<close>

definition droppedFrameRatio_val :: "rat list \<Rightarrow> js_fault + rat" where
  "droppedFrameRatio_val deltas =
     (if length deltas > 0
      then js_div (of_nat (length (filter (\<lambda>d. d > 24) deltas))) (of_nat (length deltas))
      else Inr 0)"

text \<open>The object the sampler resolves with, from the deltas.\<close>

definition delta_stats :: "rat list \<Rightarrow> js_fault + fps_sample" where
  "delta_stats deltas =
     and_then (fps deltas) (\<lambda>f.
     and_then (p95FrameMs_val deltas) (\<lambda>p.
     and_then (droppedFrameRatio_val deltas) (\<lambda>d.
       Inr \<lparr>avgFps = toFixed f 3,
            p95FrameMs = toFixed p 3,
            droppedFrameRatio = toFixed d 4,
            totalFrames = length deltas,
            sampleDurationMs = toFixed (duration deltas) 3\<rparr>)))"

definition frame_stats :: "rat list \<Rightarrow> js_fault + fps_sample" where
  "frame_stats stamps = delta_stats (frameDeltas stamps)"

text \<open>
  The callback \<open>step\<close> of \<open>FPS_SAMPLE_JS\<close>: each animation frame hands it a timestamp;
  it resolves once \<open>ts - start >= durationMs\<close> and asks for the next frame otherwise.
  The frames still to come are a list; \<open>None\<close> says that the list ended before the
  sampler resolved.
\<close>

fun step :: "rat \<Rightarrow> rat option \<Rightarrow> rat list \<Rightarrow> rat list \<Rightarrow> (js_fault + fps_sample) option" where
  "step durationMs start stamps [] = None"
| "step durationMs start stamps (ts # frames) =
     (let start' = (case start of None \<Rightarrow> ts | Some s \<Rightarrow> s);
          stamps' = stamps @ [ts]
      in if ts - start' \<ge> durationMs then Some (frame_stats stamps')
         else step durationMs (Some start') stamps' frames)"

definition FPS_SAMPLE_JS :: "rat \<Rightarrow> rat list \<Rightarrow> (js_fault + fps_sample) option" where
  "FPS_SAMPLE_JS durationMs frames = step durationMs None [] frames"

section \<open>Python values, rounding and the statistics functions\<close>

datatype py_error =
  TypeError | StatisticsError | KeyError | TimeoutError | PlaywrightError | RuntimeError string

text \<open>
  A Python float is a finite number or one of the three special values; the argument of
  \<open>safe_round\<close> is \<open>None\<close>, an int or a float.
\<close>

datatype pyfloat = Finite rat | NaN | PosInf | NegInf

datatype pyvalue = PyNone | PyInt int | PyFloat pyfloat

definition isnan :: "pyfloat \<Rightarrow> bool" where
  "isnan x = (x = NaN)"

text \<open>
  \<open>round(x, places)\<close> on a float rounds to the nearest multiple of \<open>10^-places\<close>, a tie
  to the even one, and leaves a value that is not finite as it is.
\<close>

definition round_half_even :: "rat \<Rightarrow> int" where
  "round_half_even y =
     (let f = \<lfloor>y\<rfloor>; d = y - of_int f
      in if d < 1 / 2 then f else if 1 / 2 < d then f + 1 else if even f then f else f + 1)"

definition round_to :: "rat \<Rightarrow> int \<Rightarrow> rat" where
  "round_to q places =
     (if 0 \<le> places then of_int (round_half_even (q * 10 ^ nat places)) / 10 ^ nat places
      else of_int (round_half_even (q / 10 ^ nat (- places))) * 10 ^ nat (- places))"

definition py_round :: "pyfloat \<Rightarrow> int \<Rightarrow> pyfloat" where
  "py_round x places = (case x of Finite q \<Rightarrow> Finite (round_to q places) | _ \<Rightarrow> x)"

text \<open>
  \<open>safe_round\<close> (lines 265--270). \<open>float(value)\<close> of an int is the int as a float, of a
  float the float itself.
\<close>

definition safe_round :: "pyvalue \<Rightarrow> int \<Rightarrow> pyfloat option" where
  "safe_round val places =
     (case val of
        PyNone \<Rightarrow> None
      | PyFloat x \<Rightarrow> (if isnan x then None else Some (py_round x places))
      | PyInt i \<Rightarrow> Some (py_round (Finite (of_int i)) places))"


text \<open>
  The numbers the aggregators read out of the raw measurements come from JSON: each is a
  finite number or \<open>null\<close>, here a \<^typ>\<open>rat option\<close> with \<open>None\<close> for
  Python's \<open>None\<close>.

  \<open>sorted\<close> compares neighbours, and a comparison with \<open>None\<close> raises TypeError; a list
  with at most one element is never compared.
\<close>

definition py_sorted :: "rat option list \<Rightarrow> py_error + rat option list" where
  "py_sorted data =
     (if length data \<le> 1 then Inr data
      else if None \<in> set data then Inl TypeError
      else Inr (map Some (sort (List.map_filter (\<lambda>v. v) data))))"

text \<open>\<open>(data[i - 1] + data[i]) / 2\<close>\<close>

fun half_sum :: "rat option \<Rightarrow> rat option \<Rightarrow> py_error + rat option" where
  "half_sum (Some a) (Some b) = Inr (Some ((a + b) / 2))"
| "half_sum a b = Inl TypeError"

text \<open>
  \<open>statistics.median\<close>: sorts, raises StatisticsError on no data, returns the middle
  element of an odd number of data and the mean of the two middle ones otherwise.
\<close>

definition median :: "rat option list \<Rightarrow> py_error + rat option" where
  "median data =
     and_then (py_sorted data) (\<lambda>data.
       let n = length data
       in if n = 0 then Inl StatisticsError
          else if n mod 2 = 1 then Inr (data ! (n div 2))
          else let i = n div 2 in half_sum (data ! (i - 1)) (data ! i))"

text \<open>\<open>statistics.mean\<close>: the sum over the count, StatisticsError on no data.\<close>

definition mean :: "rat option list \<Rightarrow> py_error + rat option" where
  "mean data =
     (if data = [] then Inl StatisticsError
      else if None \<in> set data then Inl TypeError
      else Inr (Some (sum_list (List.map_filter (\<lambda>v. v) data) / of_nat (length data))))"

definition to_py :: "rat option \<Rightarrow> pyvalue" where
  "to_py v = (case v of None \<Rightarrow> PyNone | Some q \<Rightarrow> PyFloat (Finite q))"

text \<open>\<open>safe_round(stat(vals), places) if vals else None\<close>, the shape of every summary entry.\<close>

definition summarize ::
  "(rat option list \<Rightarrow> py_error + rat option) \<Rightarrow> rat option list \<Rightarrow> int
     \<Rightarrow> py_error + pyfloat option" where
  "summarize stat vals places =
     (if vals \<noteq> [] then and_then (stat vals) (\<lambda>m. Inr (safe_round (to_py m) places))
      else Inr None)"

section \<open>Startup aggregation\<close>

text \<open>
  A dict with string keys is an association list; \<open>field in d\<close> is
  \<open>map_of d field \<noteq> None\<close>, and a dict is truthy when it is not empty. The three
  dicts under \<open>run["metrics"]\<close> are fields of the run; each may be \<open>None\<close>.
\<close>

type_synonym pydict = "(string \<times> rat option) list"

record startup_run =
  run :: nat
  route :: string
  navigation :: "pydict option"
  paint :: "pydict option"
  startupFps :: "pydict option"











section \<open>The transition frame-rate sampler\<close>

text \<open>
  What \<open>isVisible\<close> reads of an element: its computed style, if there is one, and the
  number of its client rectangles.
\<close>

record css_style =
  visibility :: string
  display :: string

record element =
  computedStyle :: "css_style option"
  clientRects :: nat

definition isVisible :: "element option \<Rightarrow> bool" where
  "isVisible el =
     (case el of
        None \<Rightarrow> False
      | Some e \<Rightarrow>
          (case computedStyle e of
             None \<Rightarrow> False
           | Some style \<Rightarrow>
               if visibility style = ''hidden'' \<or> display style = ''none'' then False
               else clientRects e > 0))"

text \<open>\<open>candidates.find(isVisible) || candidates[0] || null\<close>\<close>

definition target :: "element list \<Rightarrow> element option" where
  "target candidates =
     (case List.find (\<lambda>el. isVisible (Some el)) candidates of
        Some el \<Rightarrow> Some el
      | None \<Rightarrow> (case candidates of [] \<Rightarrow> None | el # _ \<Rightarrow> Some el))"

text \<open>
  One turn of the polling loop of lines 151--157 reads the clock in the loop condition,
  then the path, then (when the path is the expected one) the clock again for \<open>navEnd\<close>.
  The turns the page will offer are a list; \<open>None\<close> says the list ended while the loop was
  still waiting. The result of the loop is \<open>navEnd\<close>, \<open>None\<close> for \<open>null\<close>.
\<close>

record poll =
  now :: rat
  pathname :: string
  now_after :: rat

fun wait_for_path :: "rat \<Rightarrow> string \<Rightarrow> poll list \<Rightarrow> rat option option" where
  "wait_for_path navDeadline expectedPath [] = None"
| "wait_for_path navDeadline expectedPath (p # later) =
     (if now p < navDeadline
      then (if pathname p = expectedPath then Some (Some (now_after p))
            else wait_for_path navDeadline expectedPath later)
      else Some None)"

record transition_result = fps_sample +
  from_path :: string
  to_path :: string
  expectedTo :: string
  navigationDurationMs :: "rat option"
  reachedExpectedPath :: bool

datatype js_result = ErrorResult string | Measurement transition_result

text \<open>
  What one call of \<open>TRANSITION_FPS_JS\<close> observes of the page: the elements a selector
  matches, the path at line 134, the clock at line 146, the turns of the polling loop,
  the frame timestamps pushed by \<open>frameStep\<close> until the capture stops, and the path at
  lines 181 and 184. \<open>sampleMs\<close> only delays the end of the capture.
\<close>

record page_env =
  querySelectorAll :: "string \<Rightarrow> element list"
  startPath :: string
  navStart :: rat
  polls :: "poll list"
  frameStamps :: "rat list"
  endPath :: string

text \<open>The object returned at lines 179--190.\<close>

definition measurement :: "page_env \<Rightarrow> string \<Rightarrow> rat option \<Rightarrow> fps_sample \<Rightarrow> transition_result" where
  "measurement pg expectedPath navEnd s =
     \<lparr>avgFps = avgFps s,
      p95FrameMs = p95FrameMs s,
      droppedFrameRatio = droppedFrameRatio s,
      totalFrames = totalFrames s,
      sampleDurationMs = sampleDurationMs s,
      from_path = startPath pg,
      to_path = endPath pg,
      expectedTo = expectedPath,
      navigationDurationMs =
        (case navEnd of None \<Rightarrow> None | Some t \<Rightarrow> Some (toFixed (t - navStart pg) 3)),
      reachedExpectedPath = (endPath pg = expectedPath)\<rparr>"

definition TRANSITION_FPS_JS ::
  "page_env \<Rightarrow> string \<Rightarrow> string \<Rightarrow> rat \<Rightarrow> rat \<Rightarrow> (js_fault + js_result) option" where
  "TRANSITION_FPS_JS pg sel expectedPath sampleMs timeoutMs =
     (case target (querySelectorAll pg sel) of
        None \<Rightarrow> Some (Inr (ErrorResult (''No transition target found for selector: '' @ sel)))
      | Some clicked \<Rightarrow>
          (case wait_for_path (navStart pg + timeoutMs) expectedPath (polls pg) of
             None \<Rightarrow> None
           | Some navEnd \<Rightarrow>
               Some (and_then (frame_stats (frameStamps pg))
                       (\<lambda>s. Inr (Measurement (measurement pg expectedPath navEnd s))))))"

section \<open>The transition collector\<close>

definition AUTH_ENTRY_ROUTE :: string where
  "AUTH_ENTRY_ROUTE = ''/signin''"

definition AUTH_ROUTE_MARKERS :: "(string \<times> string) list" where
  \<open>AUTH_ROUTE_MARKERS =
     [(''/signin'', ''a[href="/signup"]''),
      (''/signup'', ''a[href="/signin"]''),
      (''/forgot-password'', ''a[href="/signin"]'')]\<close>

definition TRANSITIONS :: "(string \<times> string \<times> string) list" where
  \<open>TRANSITIONS =
     [(''/signin'', ''/signup'', ''a[href="/signup"]''),
      (''/signup'', ''/signin'', ''a[href="/signin"]''),
      (''/signin'', ''/forgot-password'', ''a[href="/forgot-password"]''),
      (''/forgot-password'', ''/signin'', ''a[href="/signin"]'')]\<close>

text \<open>
  What the aggregator reads of a metrics dict: \<open>m.get(key)\<close> for five keys, \<open>None\<close> when
  the key is missing or its value is null.
\<close>

record metrics_dict =
  get_avgFps :: "rat option"
  get_p95FrameMs :: "rat option"
  get_droppedFrameRatio :: "rat option"
  get_navigationDurationMs :: "rat option"
  get_reachedExpectedPath :: "bool option"

definition as_dict :: "js_result \<Rightarrow> metrics_dict" where
  "as_dict result =
     (case result of
        Measurement r \<Rightarrow>
          \<lparr>get_avgFps = Some (avgFps r),
           get_p95FrameMs = Some (p95FrameMs r),
           get_droppedFrameRatio = Some (droppedFrameRatio r),
           get_navigationDurationMs = navigationDurationMs r,
           get_reachedExpectedPath = Some (reachedExpectedPath r)\<rparr>
      | ErrorResult msg \<Rightarrow>
          \<lparr>get_avgFps = None, get_p95FrameMs = None, get_droppedFrameRatio = None,
           get_navigationDurationMs = None, get_reachedExpectedPath = None\<rparr>)"

text \<open>\<open>result.get("error")\<close>, when it is truthy.\<close>

definition error_of :: "js_result \<Rightarrow> string option" where
  "error_of result =
     (case result of
        ErrorResult msg \<Rightarrow> if msg \<noteq> [] then Some msg else None
      | Measurement r \<Rightarrow> None)"

record transition =
  from_route :: string
  to_route :: string
  selector :: string
  metrics :: metrics_dict

record round_entry =
  round_id :: nat
  transitions :: "transition list"

text \<open>
  \<open>wait_for_route_ready\<close> waits for the path, looks the route's marker up and waits for
  the marker to be visible; the browser's part is whether each wait ends in time.
\<close>

record ready_obs =
  path_matches :: bool
  marker_visible :: bool

definition wait_for_route_ready :: "ready_obs \<Rightarrow> string \<Rightarrow> py_error + unit" where
  "wait_for_route_ready obs rt =
     (if \<not> path_matches obs then Inl TimeoutError
      else case map_of AUTH_ROUTE_MARKERS rt of
             None \<Rightarrow> Inl KeyError
           | Some marker \<Rightarrow> if \<not> marker_visible obs then Inl TimeoutError else Inr ())"

text \<open>
  What the browser shows the collector while it exercises one edge: the current path
  (line 337), the readiness waits for the source and for the expected route, and the page
  in which the sampler runs. \<open>page.goto\<close> is part of the wait that follows it.
\<close>

record edge_obs =
  current_path :: string
  source_ready :: ready_obs
  sampled_page :: page_env
  expected_ready :: ready_obs

record round_obs =
  entry_ready :: ready_obs
  edge :: "nat \<Rightarrow> edge_obs"

definition then_run :: "('e + 'a) option \<Rightarrow> ('a \<Rightarrow> ('e + 'b) option) \<Rightarrow> ('e + 'b) option" where
  "then_run r f = (case r of None \<Rightarrow> None | Some (Inl e) \<Rightarrow> Some (Inl e) | Some (Inr v) \<Rightarrow> f v)"

text \<open>The loop over \<open>TRANSITIONS\<close> of lines 336--361; \<open>i\<close> counts the edges done.\<close>

fun walk_edges ::
  "(nat \<Rightarrow> edge_obs) \<Rightarrow> rat \<Rightarrow> rat \<Rightarrow> nat \<Rightarrow> (string \<times> string \<times> string) list
     \<Rightarrow> (py_error + transition list) option" where
  "walk_edges obs sampleMs timeoutMs i [] = Some (Inr [])"
| "walk_edges obs sampleMs timeoutMs i ((source_route, expected_route, sel) # later) =
     then_run
       (Some (if current_path (obs i) \<noteq> source_route
              then wait_for_route_ready (source_ready (obs i)) source_route
              else Inr ()))
       (\<lambda>_.
     then_run
       (case TRANSITION_FPS_JS (sampled_page (obs i)) sel expected_route sampleMs timeoutMs of
          None \<Rightarrow> None
        | Some (Inl fault) \<Rightarrow> Some (Inl PlaywrightError)
        | Some (Inr result) \<Rightarrow> Some (Inr result))
       (\<lambda>result.
     then_run
       (Some (case error_of result of Some msg \<Rightarrow> Inl (RuntimeError msg) | None \<Rightarrow> Inr ()))
       (\<lambda>_.
     then_run (Some (wait_for_route_ready (expected_ready (obs i)) expected_route))
       (\<lambda>_.
     then_run (walk_edges obs sampleMs timeoutMs (Suc i) later)
       (\<lambda>entries.
         Some (Inr (\<lparr>from_route = source_route, to_route = expected_route,
                      selector = sel, metrics = as_dict result\<rparr> # entries)))))))"

text \<open>The loop over the rounds of lines 325--364.\<close>

fun collect_rounds ::
  "(nat \<Rightarrow> round_obs) \<Rightarrow> rat \<Rightarrow> rat \<Rightarrow> nat list \<Rightarrow> (py_error + round_entry list) option" where
  "collect_rounds browser sampleMs timeoutMs [] = Some (Inr [])"
| "collect_rounds browser sampleMs timeoutMs (n # later) =
     then_run (Some (wait_for_route_ready (entry_ready (browser n)) AUTH_ENTRY_ROUTE))
       (\<lambda>_.
     then_run (walk_edges (edge (browser n)) sampleMs timeoutMs 0 TRANSITIONS)
       (\<lambda>transition_entries.
     then_run (collect_rounds browser sampleMs timeoutMs later)
       (\<lambda>rounds.
         Some (Inr (\<lparr>round_id = n, transitions = transition_entries\<rparr> # rounds)))))"

definition collect_transition_rounds ::
  "(nat \<Rightarrow> round_obs) \<Rightarrow> int \<Rightarrow> rat \<Rightarrow> rat \<Rightarrow> (py_error + round_entry list) option" where
  "collect_transition_rounds browser transition_rounds transition_fps_sample_ms
       transition_timeout_ms =
     collect_rounds browser transition_fps_sample_ms transition_timeout_ms
       (map nat [1..transition_rounds])"

section \<open>Transition aggregation\<close>

definition edge_key :: "transition \<Rightarrow> string" where
  "edge_key t = from_route t @ ''->'' @ to_route t"

text \<open>\<open>by_edge.setdefault(edge_key, []).append(m)\<close> on a dict that keeps insertion order.\<close>

fun setdefault_append :: "string \<Rightarrow> 'a \<Rightarrow> (string \<times> 'a list) list \<Rightarrow> (string \<times> 'a list) list" where
  "setdefault_append k m [] = [(k, [m])]"
| "setdefault_append k m ((k', ms) # later) =
     (if k' = k then (k', ms @ [m]) # later else (k', ms) # setdefault_append k m later)"

definition by_edge :: "round_entry list \<Rightarrow> (string \<times> metrics_dict list) list" where
  "by_edge transition_rounds =
     foldl (\<lambda>acc t. setdefault_append (edge_key t) (metrics t) acc) []
       (concat (map transitions transition_rounds))"

text \<open>\<open>[m[key] for m in metrics_list if m.get(key) is not None]\<close>\<close>

definition non_null :: "(metrics_dict \<Rightarrow> rat option) \<Rightarrow> metrics_dict list \<Rightarrow> rat option list" where
  "non_null get metrics_list = filter (\<lambda>v. v \<noteq> None) (map get metrics_list)"

text \<open>\<open>[1.0 if m.get("reachedExpectedPath") else 0.0 for m in metrics_list]\<close>\<close>

definition reach_indicator :: "metrics_dict \<Rightarrow> rat" where
  "reach_indicator m = (if get_reachedExpectedPath m = Some True then 1 else 0)"

record edge_summary =
  avgFpsMean :: "pyfloat option"
  avgFpsMedian :: "pyfloat option"
  p95FrameMsMedian :: "pyfloat option"
  droppedFrameRatioMedian :: "pyfloat option"
  navigationDurationMsMedian :: "pyfloat option"
  expectedPathReachRate :: "pyfloat option"
  samples :: nat

definition summarize_edge :: "metrics_dict list \<Rightarrow> py_error + edge_summary" where
  "summarize_edge metrics_list =
     (let fps_vals = non_null get_avgFps metrics_list;
          p95_vals = non_null get_p95FrameMs metrics_list;
          drop_vals = non_null get_droppedFrameRatio metrics_list;
          nav_vals = non_null get_navigationDurationMs metrics_list
      in and_then (mean (map (\<lambda>m. Some (reach_indicator m)) metrics_list)) (\<lambda>reach_rate.
         and_then (summarize mean fps_vals 3) (\<lambda>fps_mean.
         and_then (summarize median fps_vals 3) (\<lambda>fps_median.
         and_then (summarize median p95_vals 3) (\<lambda>p95_median.
         and_then (summarize median drop_vals 4) (\<lambda>drop_median.
         and_then (summarize median nav_vals 3) (\<lambda>nav_median.
           Inr \<lparr>avgFpsMean = fps_mean,
                avgFpsMedian = fps_median,
                p95FrameMsMedian = p95_median,
                droppedFrameRatioMedian = drop_median,
                navigationDurationMsMedian = nav_median,
                expectedPathReachRate = safe_round (to_py reach_rate) 4,
                samples = length metrics_list\<rparr>)))))))"

fun for_items :: "('v \<Rightarrow> py_error + 'a) \<Rightarrow> (string \<times> 'v) list \<Rightarrow> py_error + (string \<times> 'a) list" where
  "for_items f [] = Inr []"
| "for_items f ((k, v) # later) =
     and_then (f v) (\<lambda>r.
     and_then (for_items f later) (\<lambda>rest. Inr ((k, r) # rest)))"

definition aggregate_transitions :: "round_entry list \<Rightarrow> py_error + (string \<times> edge_summary) list" where
  "aggregate_transitions transition_rounds = for_items summarize_edge (by_edge transition_rounds)"

text \<open>The loop of lines 418--421 from any state of the dict \<open>by_edge\<close>.\<close>

definition grouped ::
  "(string \<times> metrics_dict list) list \<Rightarrow> transition list \<Rightarrow> (string \<times> metrics_dict list) list" where
  "grouped acc ts = foldl (\<lambda>acc t. setdefault_append (edge_key t) (metrics t) acc) acc ts"

section \<open>The transition summary in the words of the specification\<close>

text \<open>
  The measurements of one edge, in the order of the rounds; the non-null values of a
  field; mean and median of a list of numbers; a statistic rounded for the report, null
  when there is no value. These follow the specification, not the code, and are what
  \<open>aggregate_transitions\<close> is compared with.
\<close>

definition spec_group :: "round_entry list \<Rightarrow> string \<Rightarrow> metrics_dict list" where
  "spec_group transition_rounds k =
     map metrics (filter (\<lambda>t. edge_key t = k) (concat (map transitions transition_rounds)))"

definition spec_values :: "(metrics_dict \<Rightarrow> rat option) \<Rightarrow> metrics_dict list \<Rightarrow> rat list" where
  "spec_values get g = List.map_filter get g"

definition spec_mean :: "rat list \<Rightarrow> rat" where
  "spec_mean xs = sum_list xs / of_nat (length xs)"

definition spec_median :: "rat list \<Rightarrow> rat" where
  "spec_median xs =
     (let n = length xs
      in if odd n then sort xs ! (n div 2)
         else (sort xs ! (n div 2 - 1) + sort xs ! (n div 2)) / 2)"

definition spec_rounded :: "(rat list \<Rightarrow> rat) \<Rightarrow> rat list \<Rightarrow> int \<Rightarrow> pyfloat option" where
  "spec_rounded stat xs places =
     (if xs = [] then None else Some (Finite (round_to (stat xs) places)))"

definition spec_edge_summary :: "metrics_dict list \<Rightarrow> edge_summary" where
  "spec_edge_summary g =
     \<lparr>avgFpsMean = spec_rounded spec_mean (spec_values get_avgFps g) 3,
      avgFpsMedian = spec_rounded spec_median (spec_values get_avgFps g) 3,
      p95FrameMsMedian = spec_rounded spec_median (spec_values get_p95FrameMs g) 3,
      droppedFrameRatioMedian = spec_rounded spec_median (spec_values get_droppedFrameRatio g) 4,
      navigationDurationMsMedian =
        spec_rounded spec_median (spec_values get_navigationDurationMs g) 3,
      expectedPathReachRate = spec_rounded spec_mean (map reach_indicator g) 4,
      samples = length g\<rparr>"

section \<open>Concrete inputs\<close>



text \<open>
  A link hidden by \<open>display: none\<close> and a visible one; pages on which the selector of the
  first edge matches the hidden link only, nothing at all, or the visible link.
\<close>

definition hidden_link :: element where
  "hidden_link =
     \<lparr>computedStyle = Some \<lparr>visibility = ''visible'', display = ''none''\<rparr>, clientRects = 0\<rparr>"

definition visible_link :: element where
  "visible_link =
     \<lparr>computedStyle = Some \<lparr>visibility = ''visible'', display = ''inline''\<rparr>, clientRects = 1\<rparr>"

definition signup_selector :: string where
  \<open>signup_selector = ''a[href="/signup"]''\<close>

definition hidden_link_page :: page_env where
  "hidden_link_page =
     \<lparr>querySelectorAll = (\<lambda>sel. if sel = signup_selector then [hidden_link] else []),
      startPath = ''/signin'',
      navStart = 1000,
      polls = [\<lparr>now = 1000, pathname = ''/signin'', now_after = 1000\<rparr>,
               \<lparr>now = 1017, pathname = ''/signup'', now_after = 1017\<rparr>],
      frameStamps = [1008, 1024, 1041, 1058],
      endPath = ''/signup''\<rparr>"

definition empty_page :: page_env where
  "empty_page =
     \<lparr>querySelectorAll = (\<lambda>sel. []),
      startPath = ''/signin'', navStart = 1000, polls = [], frameStamps = [],
      endPath = ''/signin''\<rparr>"

text \<open>A page that reaches the expected path at the second turn of the polling loop.\<close>

definition quick_page :: page_env where
  "quick_page =
     \<lparr>querySelectorAll = (\<lambda>sel. if sel = signup_selector then [visible_link] else []),
      startPath = ''/signin'',
      navStart = 1000,
      polls = [\<lparr>now = 1000, pathname = ''/signin'', now_after = 1000\<rparr>,
               \<lparr>now = 1017, pathname = ''/signup'', now_after = 1017\<rparr>],
      frameStamps = [1008, 1024, 1041, 1058],
      endPath = ''/signup''\<rparr>"

text \<open>
  A page that stays on its path while the sampler polls (the clock passes the deadline
  at the third turn) and is still there when the sampler returns.
\<close>

definition slow_page :: "string \<Rightarrow> string \<Rightarrow> page_env" where
  "slow_page sel src =
     \<lparr>querySelectorAll = (\<lambda>s. if s = sel then [visible_link] else []),
      startPath = src,
      navStart = 1000,
      polls = [\<lparr>now = 1000, pathname = src, now_after = 1000\<rparr>,
               \<lparr>now = 3500, pathname = src, now_after = 3500\<rparr>,
               \<lparr>now = 6000, pathname = src, now_after = 6000\<rparr>],
      frameStamps = [1008, 1024, 1041, 1058],
      endPath = src\<rparr>"

definition ready :: ready_obs where
  "ready = \<lparr>path_matches = True, marker_visible = True\<rparr>"

text \<open>
  A browser in which every edge starts on its source route, no sampler sees its expected
  path, and the readiness wait after it succeeds all the same.
\<close>

definition slow_browser :: "nat \<Rightarrow> round_obs" where
  "slow_browser n =
     \<lparr>entry_ready = ready,
      edge = (\<lambda>i. case TRANSITIONS ! i of
                     (src, ex, sel) \<Rightarrow>
                       \<lparr>current_path = src, source_ready = ready,
                        sampled_page = slow_page sel src, expected_ready = ready\<rparr>)\<rparr>"

definition slow_rounds :: "round_entry list" where
  \<open>slow_rounds =
     [\<lparr>round_id = 1,
       transitions =
         map (\<lambda>(src, ex, sel).
                \<lparr>from_route = src, to_route = ex, selector = sel,
                 metrics = \<lparr>get_avgFps = Some 60, get_p95FrameMs = Some 17,
                            get_droppedFrameRatio = Some 0,
                            get_navigationDurationMs = None,
                            get_reachedExpectedPath = Some False\<rparr>\<rparr>)
           [(''/signin'', ''/signup'', ''a[href="/signup"]''),
            (''/signup'', ''/signin'', ''a[href="/signin"]''),
            (''/signin'', ''/forgot-password'', ''a[href="/forgot-password"]''),
            (''/forgot-password'', ''/signin'', ''a[href="/signin"]'')]\<rparr>]\<close>

definition no_link_obs :: "nat \<Rightarrow> edge_obs" where
  "no_link_obs i =
     \<lparr>current_path = ''/signin'', source_ready = ready,
      sampled_page = empty_page, expected_ready = ready\<rparr>"




section \<open>Facts about the frame statistics\<close>

lemma duration_sum_list: "duration deltas = sum_list deltas"
proof -
  have "foldl (\<lambda>sum v. sum + v) a deltas = a + sum_list deltas" for a :: rat
    by (induction deltas arbitrary: a) simp_all
  then show ?thesis by (simp add: duration_def)
qed

lemma length_frameDeltas: "length (frameDeltas stamps) = length stamps - 1"
  by (induction stamps rule: frameDeltas.induct) simp_all

lemma sum_frameDeltas: "stamps \<noteq> [] \<Longrightarrow> sum_list (frameDeltas stamps) = last stamps - hd stamps"
  by (induction stamps rule: frameDeltas.induct) simp_all

lemma p95Idx_bounds: "0 < n \<Longrightarrow> 0 \<le> p95Idx n \<and> nat (p95Idx n) < n"
proof -
  assume n: "0 < n"
  have "of_nat n * (95 / 100 :: rat) \<le> of_int (int n)" by simp
  then have "\<lceil>of_nat n * (95 / 100 :: rat)\<rceil> \<le> int n" by (simp only: ceiling_le_iff)
  with n show ?thesis by (simp add: p95Idx_def)
qed

lemma toFixed_zero: "toFixed 0 k = 0"
  by (simp add: toFixed_def floor_eq_iff)

lemma toFixed_decimal:
  assumes "of_int m = x * 10 ^ k"
  shows "toFixed x k = x"
proof -
  have nz: "(10::rat) ^ k \<noteq> 0" by simp
  have quot: "of_int m / 10 ^ k = x" using assms nz by simp
  have up: "\<lfloor>of_int j + (1 / 2 :: rat)\<rfloor> = j" for j :: int
    by (simp add: floor_eq_iff)
  show ?thesis
  proof (cases "x < 0")
    case False
    have "\<lfloor>x * 10 ^ k + 1 / 2\<rfloor> = m"
      using up [of m] by (simp add: assms)
    with False quot show ?thesis by (simp add: toFixed_def)
  next
    case True
    have "(- x) * 10 ^ k = of_int (- m)" by (simp add: assms)
    then have "\<lfloor>(- x) * 10 ^ k + 1 / 2\<rfloor> = - m"
      using up [of "- m"] by (simp only:)
    with True quot show ?thesis by (simp add: toFixed_def)
  qed
qed

lemma fps_eq:
  "fps deltas =
     Inr (if 0 < sum_list deltas then of_nat (length deltas) / sum_list deltas * 1000 else 0)"
  by (simp add: fps_def js_div_def and_then_def duration_sum_list)

lemma sort_empty_iff: "sort deltas = [] \<longleftrightarrow> deltas = []"
  using length_sort [of "\<lambda>d. d" deltas] by (simp only: length_0_conv [symmetric])

lemma p95FrameMs_val_eq:
  "p95FrameMs_val deltas =
     Inr (if deltas = [] then 0 else sort deltas ! nat (p95Idx (length deltas)))"
proof (cases "deltas = []")
  case True
  then show ?thesis by (simp add: p95FrameMs_val_def)
next
  case False
  then have "0 < length deltas" by simp
  from p95Idx_bounds [OF this] False show ?thesis
    by (simp add: p95FrameMs_val_def js_index_def Let_def sort_empty_iff)
qed

lemma droppedFrameRatio_val_eq:
  "droppedFrameRatio_val deltas =
     Inr (if deltas = [] then 0
          else of_nat (length (filter (\<lambda>d. 24 < d) deltas)) / of_nat (length deltas))"
  by (simp add: droppedFrameRatio_val_def js_div_def)

lemma delta_stats_eq:
  "delta_stats deltas =
     Inr \<lparr>avgFps =
            toFixed (if 0 < sum_list deltas
                     then of_nat (length deltas) / sum_list deltas * 1000 else 0) 3,
          p95FrameMs =
            toFixed (if deltas = [] then 0 else sort deltas ! nat (p95Idx (length deltas))) 3,
          droppedFrameRatio =
            toFixed (if deltas = [] then 0
                     else of_nat (length (filter (\<lambda>d. 24 < d) deltas))
                          / of_nat (length deltas)) 4,
          totalFrames = length deltas,
          sampleDurationMs = toFixed (sum_list deltas) 3\<rparr>"
  by (simp add: delta_stats_def and_then_def fps_eq p95FrameMs_val_eq
      droppedFrameRatio_val_eq duration_sum_list)

lemma frameDeltas_short: "length stamps < 2 \<Longrightarrow> frameDeltas stamps = []"
  by (cases stamps rule: frameDeltas.cases) simp_all

lemma increasing_hd_less_last:
  assumes "2 \<le> length stamps" and "sorted_wrt (<) stamps"
  shows "hd stamps < last stamps"
proof (cases stamps)
  case Nil
  with assms show ?thesis by simp
next
  case (Cons a rest)
  with assms(1) have "rest \<noteq> []" by auto
  then have "last rest \<in> set rest" by simp
  with assms(2) Cons \<open>rest \<noteq> []\<close> show ?thesis by auto
qed

text \<open>
  With a window that is not positive the frame-rate sampler resolves on its first frame,
  with one timestamp; with a positive one it resolves on the first frame that is the
  window or more after the first.
\<close>

lemma FPS_SAMPLE_JS_first_frame:
  "durationMs \<le> 0 \<Longrightarrow> FPS_SAMPLE_JS durationMs (ts # frames) = Some (frame_stats [ts])"
  by (simp add: FPS_SAMPLE_JS_def)

lemma step_resolves:
  "ts - start \<ge> durationMs \<Longrightarrow>
     step durationMs (Some start) stamps (ts # frames) = Some (frame_stats (stamps @ [ts]))"
  by simp

section \<open>Facts about the transition sampler and the collector\<close>

lemma target_None_iff: "target candidates = None \<longleftrightarrow> candidates = []"
  by (cases candidates) (simp_all add: target_def split: option.splits)

lemma frame_stats_total: "\<exists>s. frame_stats stamps = Inr s"
  by (simp add: frame_stats_def delta_stats_eq)

lemma and_then_Inr: "and_then (Inr v) f = f v"
  by (simp add: and_then_def)

lemma TRANSITION_FPS_JS_no_match:
  "querySelectorAll pg sel = [] \<Longrightarrow>
     TRANSITION_FPS_JS pg sel expectedPath sampleMs timeoutMs
       = Some (Inr (ErrorResult (''No transition target found for selector: '' @ sel)))"
  by (simp add: TRANSITION_FPS_JS_def target_def)

lemma TRANSITION_FPS_JS_match:
  assumes "querySelectorAll pg sel \<noteq> []"
  shows "\<exists>s. frame_stats (frameStamps pg) = Inr s \<and>
     TRANSITION_FPS_JS pg sel expectedPath sampleMs timeoutMs
       = map_option (\<lambda>navEnd. Inr (Measurement (measurement pg expectedPath navEnd s)))
           (wait_for_path (navStart pg + timeoutMs) expectedPath (polls pg))"
proof -
  obtain s where s: "frame_stats (frameStamps pg) = Inr s" using frame_stats_total by blast
  from assms obtain clicked where c: "target (querySelectorAll pg sel) = Some clicked"
    using target_None_iff [of "querySelectorAll pg sel"] by (cases "target (querySelectorAll pg sel)") simp_all
  have "TRANSITION_FPS_JS pg sel expectedPath sampleMs timeoutMs
       = map_option (\<lambda>navEnd. Inr (Measurement (measurement pg expectedPath navEnd s)))
           (wait_for_path (navStart pg + timeoutMs) expectedPath (polls pg))"
    by (cases "wait_for_path (navStart pg + timeoutMs) expectedPath (polls pg)")
       (simp_all add: TRANSITION_FPS_JS_def c s and_then_Inr)
  with s show ?thesis by blast
qed

lemma wait_for_path_find:
  "wait_for_path d e ps = Some r \<Longrightarrow>
     r = map_option now_after (List.find (\<lambda>p. pathname p = e) (takeWhile (\<lambda>p. now p < d) ps))"
proof (induction ps)
  case Nil
  then show ?case by simp
next
  case (Cons p ps)
  show ?case
  proof (cases "now p < d")
    case False
    with Cons.prems show ?thesis by simp
  next
    case True
    show ?thesis
    proof (cases "pathname p = e")
      case True
      with \<open>now p < d\<close> Cons.prems show ?thesis by simp
    next
      case False
      with \<open>now p < d\<close> Cons show ?thesis by simp
    qed
  qed
qed

lemma wait_for_path_returns:
  "list_ex (\<lambda>p. \<not> now p < d \<or> pathname p = e) ps \<Longrightarrow> \<exists>r. wait_for_path d e ps = Some r"
proof (induction ps)
  case Nil
  then show ?case by simp
next
  case (Cons p ps)
  show ?case
  proof (cases "now p < d")
    case False
    then show ?thesis by simp
  next
    case True
    show ?thesis
    proof (cases "pathname p = e")
      case True
      with \<open>now p < d\<close> show ?thesis by simp
    next
      case False
      with \<open>now p < d\<close> Cons.prems have "list_ex (\<lambda>p. \<not> now p < d \<or> pathname p = e) ps"
        by simp
      then have "\<exists>r. wait_for_path d e ps = Some r" by (rule Cons.IH)
      with False \<open>now p < d\<close> show ?thesis by simp
    qed
  qed
qed

lemma then_run_Inr:
  assumes "then_run r f = Some (Inr v)"
  obtains a where "r = Some (Inr a)" and "f a = Some (Inr v)"
proof (cases r)
  case None
  with assms show ?thesis by (simp add: then_run_def)
next
  case (Some x)
  show ?thesis
  proof (cases x)
    case (Inl e)
    with Some assms show ?thesis by (simp add: then_run_def)
  next
    case (Inr a)
    with Some assms that show ?thesis by (simp add: then_run_def)
  qed
qed

lemma walk_edges_entries:
  "walk_edges obs sm tm i edges = Some (Inr entries) \<Longrightarrow>
     map (\<lambda>t. (from_route t, to_route t, selector t)) entries = edges"
proof (induction edges arbitrary: i entries)
  case Nil
  then show ?case by simp
next
  case (Cons e edges)
  obtain src ex sel where e: "e = (src, ex, sel)" by (cases e)
  from Cons.prems have w: "walk_edges obs sm tm i ((src, ex, sel) # edges) = Some (Inr entries)"
    by (simp only: e)
  from w obtain u where r1: "then_run
       (case TRANSITION_FPS_JS (sampled_page (obs i)) sel ex sm tm of
          None \<Rightarrow> None
        | Some (Inl fault) \<Rightarrow> Some (Inl PlaywrightError)
        | Some (Inr result) \<Rightarrow> Some (Inr result))
       (\<lambda>result.
     then_run
       (Some (case error_of result of Some msg \<Rightarrow> Inl (RuntimeError msg) | None \<Rightarrow> Inr ()))
       (\<lambda>_.
     then_run (Some (wait_for_route_ready (expected_ready (obs i)) ex))
       (\<lambda>_.
     then_run (walk_edges obs sm tm (Suc i) edges)
       (\<lambda>entries.
         Some (Inr (\<lparr>from_route = src, to_route = ex,
                      selector = sel, metrics = as_dict result\<rparr> # entries)))))) = Some (Inr entries)"
    unfolding walk_edges.simps by (rule then_run_Inr)
  from r1 obtain result where r2: "then_run
       (Some (case error_of result of Some msg \<Rightarrow> Inl (RuntimeError msg) | None \<Rightarrow> Inr ()))
       (\<lambda>_.
     then_run (Some (wait_for_route_ready (expected_ready (obs i)) ex))
       (\<lambda>_.
     then_run (walk_edges obs sm tm (Suc i) edges)
       (\<lambda>entries.
         Some (Inr (\<lparr>from_route = src, to_route = ex,
                      selector = sel, metrics = as_dict result\<rparr> # entries))))) = Some (Inr entries)"
    by (rule then_run_Inr)
  from r2 obtain u2 where r3: "then_run (Some (wait_for_route_ready (expected_ready (obs i)) ex))
       (\<lambda>_.
     then_run (walk_edges obs sm tm (Suc i) edges)
       (\<lambda>entries.
         Some (Inr (\<lparr>from_route = src, to_route = ex,
                      selector = sel, metrics = as_dict result\<rparr> # entries)))) = Some (Inr entries)"
    by (rule then_run_Inr)
  from r3 obtain u3 where r4: "then_run (walk_edges obs sm tm (Suc i) edges)
       (\<lambda>entries.
         Some (Inr (\<lparr>from_route = src, to_route = ex,
                      selector = sel, metrics = as_dict result\<rparr> # entries))) = Some (Inr entries)"
    by (rule then_run_Inr)
  from r4 obtain rest where rest: "walk_edges obs sm tm (Suc i) edges = Some (Inr rest)"
    and ent: "Some (Inr (\<lparr>from_route = src, to_route = ex,
                      selector = sel, metrics = as_dict result\<rparr> # rest)) = Some (Inr entries)"
    by (rule then_run_Inr) blast
  from rest have "map (\<lambda>t. (from_route t, to_route t, selector t)) rest = edges"
    by (rule Cons.IH)
  with ent e show ?case by auto
qed

lemma collect_rounds_entries:
  "collect_rounds browser sm tm ids = Some (Inr rounds) \<Longrightarrow>
     \<forall>r \<in> set rounds. map (\<lambda>t. (from_route t, to_route t, selector t)) (transitions r) = TRANSITIONS"
proof (induction ids arbitrary: rounds)
  case Nil
  then show ?case by simp
next
  case (Cons n ids)
  from Cons.prems obtain u where r1: "then_run (walk_edges (edge (browser n)) sm tm 0 TRANSITIONS)
       (\<lambda>transition_entries.
     then_run (collect_rounds browser sm tm ids)
       (\<lambda>rounds.
         Some (Inr (\<lparr>round_id = n, transitions = transition_entries\<rparr> # rounds)))) = Some (Inr rounds)"
    unfolding collect_rounds.simps by (rule then_run_Inr)
  from r1 obtain entries where en: "walk_edges (edge (browser n)) sm tm 0 TRANSITIONS = Some (Inr entries)"
    and r2: "then_run (collect_rounds browser sm tm ids)
       (\<lambda>rounds.
         Some (Inr (\<lparr>round_id = n, transitions = entries\<rparr> # rounds))) = Some (Inr rounds)"
    by (rule then_run_Inr) blast
  from r2 obtain rest where rest: "collect_rounds browser sm tm ids = Some (Inr rest)"
    and eq: "Some (Inr (\<lparr>round_id = n, transitions = entries\<rparr> # rest)) = Some (Inr rounds)"
    by (rule then_run_Inr) blast
  have "\<forall>r \<in> set rest. map (\<lambda>t. (from_route t, to_route t, selector t)) (transitions r) = TRANSITIONS"
    using rest by (rule Cons.IH)
  moreover have "map (\<lambda>t. (from_route t, to_route t, selector t)) entries = TRANSITIONS"
    using en by (rule walk_edges_entries)
  ultimately show ?case using eq by auto
qed

lemma walk_edges_no_match:
  assumes "querySelectorAll (sampled_page (obs i)) sel = []" and "current_path (obs i) = src"
  shows "walk_edges obs sm tm i ((src, ex, sel) # later)
           = Some (Inl (RuntimeError (''No transition target found for selector: '' @ sel)))"
  using assms
  by (simp add: then_run_def TRANSITION_FPS_JS_no_match error_of_def)

section \<open>Facts about the aggregation\<close>

lemma map_filter_map_Some: "List.map_filter (\<lambda>v. v) (map Some xs) = xs"
  by (induction xs) (simp_all add: List.map_filter_simps)

lemma py_sorted_Some: "py_sorted (map Some xs) = Inr (map Some (sort xs))"
proof (cases "length xs \<le> 1")
  case True
  then have "sort xs = xs" by (cases xs) (simp_all)
  with True show ?thesis by (simp add: py_sorted_def)
next
  case False
  have "None \<notin> set (map Some xs)" by auto
  with False show ?thesis by (simp add: py_sorted_def map_filter_map_Some)
qed

lemma median_Some:
  assumes "xs \<noteq> []"
  shows "median (map Some xs) = Inr (Some (spec_median xs))"
proof -
  let ?n = "length xs"
  from assms have n: "0 < ?n" by simp
  have len: "length (sort xs) = ?n" by simp
  show ?thesis
  proof (cases "odd ?n")
    case True
    then have "?n mod 2 = 1" by presburger
    moreover have "?n div 2 < ?n" using n by simp
    ultimately show ?thesis using True n
      by (simp add: median_def py_sorted_Some and_then_Inr spec_median_def Let_def sort_empty_iff)
  next
    case False
    then have m: "?n mod 2 = 0" by presburger
    have i: "?n div 2 < ?n" using n by simp
    have j: "?n div 2 - 1 < ?n" using n by arith
    from m i j False n show ?thesis
      by (simp add: median_def py_sorted_Some and_then_Inr spec_median_def Let_def sort_empty_iff)
  qed
qed

lemma mean_Some:
  assumes "xs \<noteq> []"
  shows "mean (map Some xs) = Inr (Some (spec_mean xs))"
proof -
  have "None \<notin> set (map Some xs)" by auto
  with assms show ?thesis by (simp add: mean_def map_filter_map_Some spec_mean_def)
qed

lemma non_null_values: "non_null get g = map Some (spec_values get g)"
  by (induction g) (auto simp: non_null_def spec_values_def List.map_filter_simps split: option.splits)

lemma summarize_median: "summarize median (map Some xs) places = Inr (spec_rounded spec_median xs places)"
  by (cases "xs = []")
     (simp_all add: summarize_def median_Some and_then_Inr spec_rounded_def to_py_def
        safe_round_def isnan_def py_round_def)

lemma summarize_mean: "summarize mean (map Some xs) places = Inr (spec_rounded spec_mean xs places)"
  by (cases "xs = []")
     (simp_all add: summarize_def mean_Some and_then_Inr spec_rounded_def to_py_def
        safe_round_def isnan_def py_round_def)

lemma summarize_edge_eq:
  assumes "g \<noteq> []"
  shows "summarize_edge g = Inr (spec_edge_summary g)"
proof -
  have m: "map (\<lambda>m. Some (reach_indicator m)) g = map Some (map reach_indicator g)" by simp
  have ne: "map reach_indicator g \<noteq> []" using assms by simp
  have r: "safe_round (to_py (Some (spec_mean (map reach_indicator g)))) 4
           = spec_rounded spec_mean (map reach_indicator g) 4"
    using ne by (simp add: spec_rounded_def to_py_def safe_round_def isnan_def py_round_def)
  show ?thesis
    unfolding summarize_edge_def Let_def m mean_Some [OF ne] non_null_values
      summarize_median summarize_mean and_then_Inr r spec_edge_summary_def
    by (rule refl)
qed

lemma map_of_setdefault_append:
  "map_of (setdefault_append k m kvs) k' =
     (if k' = k then Some ((case map_of kvs k of None \<Rightarrow> [] | Some ms \<Rightarrow> ms) @ [m])
      else map_of kvs k')"
  by (induction kvs) auto

lemma fst_setdefault_append:
  "map fst (setdefault_append k m kvs) =
     (if k \<in> fst ` set kvs then map fst kvs else map fst kvs @ [k])"
proof (induction kvs)
  case Nil
  then show ?case by simp
next
  case (Cons kv kvs)
  obtain k' ms where kv: "kv = (k', ms)" by (cases kv)
  show ?case
  proof (cases "k' = k")
    case True
    with kv show ?thesis by simp
  next
    case False
    with kv Cons.IH show ?thesis by simp
  qed
qed

lemma keys_setdefault_append:
  "fst ` set (setdefault_append k m kvs) = insert k (fst ` set kvs)"
proof -
  have "set (map fst (setdefault_append k m kvs)) = insert k (fst ` set kvs)"
    by (simp only: fst_setdefault_append) auto
  then show ?thesis by simp
qed

lemma distinct_setdefault_append:
  "distinct (map fst kvs) \<Longrightarrow> distinct (map fst (setdefault_append k m kvs))"
proof (induction kvs)
  case Nil
  then show ?case by simp
next
  case (Cons kv kvs)
  obtain k' ms where kv: "kv = (k', ms)" by (cases kv)
  show ?case
  proof (cases "k' = k")
    case True
    with Cons.prems kv show ?thesis by simp
  next
    case False
    have "k' \<notin> fst ` set (setdefault_append k m kvs)"
      using Cons.prems kv False by (simp add: keys_setdefault_append)
    with Cons kv False show ?thesis by simp
  qed
qed

lemma map_of_grouped:
  "map_of (grouped acc ts) k =
     (let g = map metrics (filter (\<lambda>t. edge_key t = k) ts)
      in case map_of acc k of
           None \<Rightarrow> if g = [] then None else Some g
         | Some ms \<Rightarrow> Some (ms @ g))"
proof (induction ts arbitrary: acc)
  case Nil
  then show ?case by (simp add: grouped_def split: option.splits)
next
  case (Cons t ts)
  have "grouped acc (t # ts) = grouped (setdefault_append (edge_key t) (metrics t) acc) ts"
    by (simp add: grouped_def)
  then show ?case
    by (simp add: Cons.IH map_of_setdefault_append Let_def split: option.splits)
qed

lemma keys_grouped:
  "fst ` set (grouped acc ts) = fst ` set acc \<union> edge_key ` set ts"
proof (induction ts arbitrary: acc)
  case Nil
  then show ?case by (simp add: grouped_def)
next
  case (Cons t ts)
  have "grouped acc (t # ts) = grouped (setdefault_append (edge_key t) (metrics t) acc) ts"
    by (simp add: grouped_def)
  then show ?case
    by (simp add: Cons.IH keys_setdefault_append)
qed

lemma distinct_grouped:
  "distinct (map fst acc) \<Longrightarrow> distinct (map fst (grouped acc ts))"
proof (induction ts arbitrary: acc)
  case Nil
  then show ?case by (simp add: grouped_def)
next
  case (Cons t ts)
  have "grouped acc (t # ts) = grouped (setdefault_append (edge_key t) (metrics t) acc) ts"
    by (simp add: grouped_def)
  with Cons show ?case by (simp add: distinct_setdefault_append)
qed

lemma by_edge_grouped: "by_edge rounds = grouped [] (concat (map transitions rounds))"
  by (simp add: by_edge_def grouped_def)

lemma map_of_by_edge:
  "map_of (by_edge rounds) k = (if spec_group rounds k = [] then None else Some (spec_group rounds k))"
  by (simp add: by_edge_grouped map_of_grouped spec_group_def Let_def)

lemma distinct_by_edge: "distinct (map fst (by_edge rounds))"
  by (simp add: by_edge_grouped distinct_grouped)

lemma keys_by_edge: "fst ` set (by_edge rounds) = edge_key ` set (concat (map transitions rounds))"
  by (simp add: by_edge_grouped keys_grouped)

lemma by_edge_nonempty:
  assumes "(k, g) \<in> set (by_edge rounds)"
  shows "g \<noteq> []"
proof -
  from assms distinct_by_edge have "map_of (by_edge rounds) k = Some g" by simp
  then show ?thesis by (simp add: map_of_by_edge split: if_splits)
qed

lemma for_items_total:
  assumes "\<And>k v. (k, v) \<in> set kvs \<Longrightarrow> f v = Inr (h v)"
  shows "for_items f kvs = Inr (map (\<lambda>(k, v). (k, h v)) kvs)"
  using assms
proof (induction kvs)
  case Nil
  then show ?case by simp
next
  case (Cons kv kvs)
  obtain k v where kv: "kv = (k, v)" by (cases kv)
  have here: "f v = Inr (h v)" using Cons.prems kv by auto
  have "\<And>k v. (k, v) \<in> set kvs \<Longrightarrow> f v = Inr (h v)" using Cons.prems by auto
  then have "for_items f kvs = Inr (map (\<lambda>(k, v). (k, h v)) kvs)" by (rule Cons.IH)
  with here show ?case by (simp add: kv and_then_Inr)
qed

lemma aggregate_transitions_eq:
  "aggregate_transitions rounds = Inr (map (\<lambda>(k, g). (k, spec_edge_summary g)) (by_edge rounds))"
  unfolding aggregate_transitions_def
  by (rule for_items_total) (rule summarize_edge_eq, rule by_edge_nonempty)


lemma fst_mapped: "map fst (map (\<lambda>(k, v). (k, h v)) kvs) = map fst kvs"
  by (induction kvs) auto

section \<open>The frame-rate sampler\<close>

text \<open>
  C2. With fewer than two timestamps there is no inter-frame delta, and the frame
  statistics are avgFps = 0, p95FrameMs = 0 and droppedFrameRatio = 0 exactly; the result
  is a value (\<open>Inr\<close>), so no quotient with a zero denominator was formed on the way.
\<close>

theorem frame_stats_degenerate:
  assumes "length stamps < 2"
  shows "frame_stats stamps =
           Inr \<lparr>avgFps = 0, p95FrameMs = 0, droppedFrameRatio = 0,
                totalFrames = 0, sampleDurationMs = 0\<rparr>"
  using frameDeltas_short [OF assms]
  by (simp add: frame_stats_def delta_stats_eq toFixed_zero)

theorem frame_stats_degenerate_witness:
  "length [7 :: rat] < 2 \<and>
   frame_stats [7] =
     Inr \<lparr>avgFps = 0, p95FrameMs = 0, droppedFrameRatio = 0,
          totalFrames = 0, sampleDurationMs = 0\<rparr>"
  using frame_stats_degenerate [of "[7]"] by simp

text \<open>
  C3. For N \<ge> 2 strictly increasing timestamps the sum of the N - 1 deltas is the last
  timestamp minus the first, it is positive, and the sampler's avgFps is
  (N - 1) / totalDurationMs * 1000 rounded to three decimals by \<open>toFixed\<close>.
\<close>

theorem frame_stats_avgFps:
  assumes "2 \<le> length stamps" and "sorted_wrt (<) stamps"
  shows "\<exists>s. frame_stats stamps = Inr s
           \<and> avgFps s =
               toFixed (of_nat (length stamps - 1) / (last stamps - hd stamps) * 1000) 3
           \<and> length (frameDeltas stamps) = length stamps - 1
           \<and> duration (frameDeltas stamps) = last stamps - hd stamps
           \<and> 0 < last stamps - hd stamps"
proof -
  from assms(1) have ne: "stamps \<noteq> []" by auto
  have pos: "0 < last stamps - hd stamps"
    using increasing_hd_less_last [OF assms] by simp
  have total: "sum_list (frameDeltas stamps) = last stamps - hd stamps"
    by (rule sum_frameDeltas [OF ne])
  show ?thesis
    using pos by (simp add: frame_stats_def delta_stats_eq total length_frameDeltas
        duration_sum_list)
qed

theorem frame_stats_avgFps_witness:
  "2 \<le> length [0, 10, 20, 50 :: rat] \<and> sorted_wrt (<) [0, 10, 20, 50 :: rat]
   \<and> (\<exists>s. frame_stats [0, 10, 20, 50] = Inr s \<and> avgFps s = 60)"
proof -
  have n: "2 \<le> length [0, 10, 20, 50 :: rat]" by simp
  have inc: "sorted_wrt (<) [0, 10, 20, 50 :: rat]" by simp
  have v: "toFixed (of_nat (length [0, 10, 20, 50 :: rat] - 1)
             / (last [0, 10, 20, 50] - hd [0, 10, 20, 50]) * 1000) 3 = 60"
    by (simp add: toFixed_def floor_eq_iff)
  from frame_stats_avgFps [OF n inc] obtain s
    where "frame_stats [0, 10, 20, 50] = Inr s"
      and "avgFps s = toFixed (of_nat (length [0, 10, 20, 50 :: rat] - 1)
             / (last [0, 10, 20, 50] - hd [0, 10, 20, 50]) * 1000) 3"
    by blast
  with v have "\<exists>s. frame_stats [0, 10, 20, 50] = Inr s \<and> avgFps s = 60"
    by (simp only: exI [of _ s])
  with n inc show ?thesis by (simp only: simp_thms)
qed



text \<open>
  C5. For a non-empty list of n deltas, the value \<open>p95FrameMs\<close> of line 95 is the element
  at index max(0, ceil(n * 0.95) - 1) of the deltas sorted ascending, and that index lies
  inside the array. The field of the result is this value after \<open>toFixed(3)\<close>, which
  changes nothing when the deltas are whole thousandths of a millisecond. For the deltas
  5, 10, 15, 20 the index is 3 and the reported p95FrameMs is 20.
\<close>

theorem p95FrameMs_index:
  assumes "deltas \<noteq> []"
  shows "p95FrameMs_val deltas =
           Inr (sort deltas ! nat (max 0 (\<lceil>of_nat (length deltas) * (95 / 100 :: rat)\<rceil> - 1)))
         \<and> nat (max 0 (\<lceil>of_nat (length deltas) * (95 / 100 :: rat)\<rceil> - 1))
             < length (sort deltas)
         \<and> ((\<forall>d \<in> set deltas. of_int \<lfloor>d * 1000\<rfloor> = d * 1000) \<longrightarrow>
              (\<exists>s. delta_stats deltas = Inr s
                 \<and> p95FrameMs s =
                     sort deltas
                       ! nat (max 0 (\<lceil>of_nat (length deltas) * (95 / 100 :: rat)\<rceil> - 1))))
         \<and> p95Idx 4 = 3
         \<and> (\<exists>s. delta_stats [5, 10, 15, 20] = Inr s \<and> p95FrameMs s = 20)"
proof -
  let ?i = "nat (max 0 (\<lceil>of_nat (length deltas) * (95 / 100 :: rat)\<rceil> - 1))"
  from assms have n: "0 < length deltas" by simp
  then have idx: "p95Idx (length deltas)
                  = max 0 (\<lceil>of_nat (length deltas) * (95 / 100 :: rat)\<rceil> - 1)"
    by (simp add: p95Idx_def)
  have inside: "?i < length (sort deltas)"
    using p95Idx_bounds [OF n] by (simp only: idx length_sort)
  have val: "p95FrameMs_val deltas = Inr (sort deltas ! ?i)"
    using assms by (simp only: p95FrameMs_val_eq idx if_False)
  have field: "\<exists>s. delta_stats deltas = Inr s \<and> p95FrameMs s = sort deltas ! ?i"
    if ms: "\<forall>d \<in> set deltas. of_int \<lfloor>d * 1000\<rfloor> = d * 1000"
  proof -
    from inside have "sort deltas ! ?i \<in> set (sort deltas)" by (rule nth_mem)
    then have "sort deltas ! ?i \<in> set deltas" by simp
    with ms have "of_int \<lfloor>sort deltas ! ?i * 1000\<rfloor> = sort deltas ! ?i * 10 ^ 3"
      by simp
    then have "toFixed (sort deltas ! ?i) 3 = sort deltas ! ?i"
      by (rule toFixed_decimal)
    with assms show ?thesis by (simp add: delta_stats_eq idx)
  qed
  have four: "p95Idx 4 = 3"
    by code_simp
  have "delta_stats [5, 10, 15, 20] =
          Inr \<lparr>avgFps = 80, p95FrameMs = 20, droppedFrameRatio = 0,
               totalFrames = 4, sampleDurationMs = 50\<rparr>"
    by code_simp
  then have ex: "\<exists>s. delta_stats [5, 10, 15, 20] = Inr s \<and> p95FrameMs s = 20"
    by simp
  from val inside field four ex show ?thesis by blast
qed

theorem p95FrameMs_index_witness:
  "[16, 33, 17 :: rat] \<noteq> []
   \<and> list_all (\<lambda>d. of_int \<lfloor>d * 1000\<rfloor> = d * 1000) [16, 33, 17 :: rat]
   \<and> p95FrameMs_val [16, 33, 17] = Inr 33
   \<and> (\<exists>s. delta_stats [16, 33, 17] = Inr s \<and> p95FrameMs s = 33)"
proof -
  have ne: "[16, 33, 17 :: rat] \<noteq> []" by simp
  have ms: "\<forall>d \<in> set [16, 33, 17 :: rat]. of_int \<lfloor>d * 1000\<rfloor> = d * 1000"
    by simp
  have v: "sort [16, 33, 17 :: rat]
             ! nat (max 0 (\<lceil>of_nat (length [16, 33, 17 :: rat]) * (95 / 100 :: rat)\<rceil> - 1))
           = 33"
    by code_simp
  have each: "list_all (\<lambda>d. of_int \<lfloor>d * 1000\<rfloor> = d * 1000) [16, 33, 17 :: rat]"
    by simp
  from p95FrameMs_index [OF ne] ms v ne each show ?thesis
    by (simp only: simp_thms)
qed

section \<open>Rounding for the report\<close>



section \<open>Startup aggregation on null values\<close>


section \<open>The transition target\<close>

text \<open>
  C1, as the code has it. The transition sampler reports its error exactly when no element
  at all matches the selector, and the collector then raises RuntimeError with that
  message. When elements match and none of them is visible, the sampler falls back to the
  first match (\<open>candidates[0]\<close>), clicks it and measures.
\<close>

theorem transition_error_iff_no_match:
  "((\<exists>msg. TRANSITION_FPS_JS pg sel expectedPath sampleMs timeoutMs = Some (Inr (ErrorResult msg)))
      \<longleftrightarrow> querySelectorAll pg sel = [])
   \<and> (querySelectorAll pg sel = [] \<longrightarrow>
        TRANSITION_FPS_JS pg sel expectedPath sampleMs timeoutMs
          = Some (Inr (ErrorResult (''No transition target found for selector: '' @ sel))))
   \<and> (querySelectorAll (sampled_page (obs i)) sel = [] \<and> current_path (obs i) = src \<longrightarrow>
        walk_edges obs sampleMs timeoutMs i ((src, expectedPath, sel) # later)
          = Some (Inl (RuntimeError (''No transition target found for selector: '' @ sel))))
   \<and> (candidates \<noteq> [] \<and> List.find (\<lambda>el. isVisible (Some el)) candidates = None \<longrightarrow>
        target candidates = Some (hd candidates))"
proof -
  have a: "(\<exists>msg. TRANSITION_FPS_JS pg sel expectedPath sampleMs timeoutMs
                    = Some (Inr (ErrorResult msg)))
             \<longleftrightarrow> querySelectorAll pg sel = []"
  proof (cases "querySelectorAll pg sel = []")
    case True
    then show ?thesis using TRANSITION_FPS_JS_no_match [OF True] by simp
  next
    case False
    from TRANSITION_FPS_JS_match [OF False, of expectedPath sampleMs timeoutMs] obtain s where
      "TRANSITION_FPS_JS pg sel expectedPath sampleMs timeoutMs
         = map_option (\<lambda>navEnd. Inr (Measurement (measurement pg expectedPath navEnd s)))
             (wait_for_path (navStart pg + timeoutMs) expectedPath (polls pg))" by blast
    with False show ?thesis
      by (cases "wait_for_path (navStart pg + timeoutMs) expectedPath (polls pg)") simp_all
  qed
  have b: "querySelectorAll pg sel = [] \<longrightarrow>
        TRANSITION_FPS_JS pg sel expectedPath sampleMs timeoutMs
          = Some (Inr (ErrorResult (''No transition target found for selector: '' @ sel)))"
    using TRANSITION_FPS_JS_no_match by blast
  have c: "querySelectorAll (sampled_page (obs i)) sel = [] \<and> current_path (obs i) = src \<longrightarrow>
        walk_edges obs sampleMs timeoutMs i ((src, expectedPath, sel) # later)
          = Some (Inl (RuntimeError (''No transition target found for selector: '' @ sel)))"
    using walk_edges_no_match by blast
  have d: "candidates \<noteq> [] \<and> List.find (\<lambda>el. isVisible (Some el)) candidates = None \<longrightarrow>
        target candidates = Some (hd candidates)"
    by (cases candidates) (simp_all add: target_def)
  from a b c d show ?thesis by blast
qed

text \<open>
  On a page without any match the sampler reports the error and the collector raises; a
  lone hidden link is the target.
\<close>

theorem transition_error_iff_no_match_witness:
  "TRANSITION_FPS_JS empty_page signup_selector ''/signup'' 1800 5000
     = Some (Inr (ErrorResult (''No transition target found for selector: '' @ signup_selector)))
   \<and> walk_edges no_link_obs 1800 5000 0 ((''/signin'', ''/signup'', signup_selector) # [])
     = Some (Inl (RuntimeError (''No transition target found for selector: '' @ signup_selector)))
   \<and> target [hidden_link] = Some hidden_link"
proof -
  have e: "querySelectorAll empty_page signup_selector = []"
    by (simp add: empty_page_def)
  have o: "querySelectorAll (sampled_page (no_link_obs 0)) signup_selector = []
           \<and> current_path (no_link_obs 0) = ''/signin''"
    by (simp add: no_link_obs_def empty_page_def)
  have h: "[hidden_link] \<noteq> [] \<and> List.find (\<lambda>el. isVisible (Some el)) [hidden_link] = None"
    by (simp add: hidden_link_def isVisible_def)
  from transition_error_iff_no_match
         [of empty_page signup_selector "''/signup''" 1800 5000 no_link_obs 0 "''/signin''" "[]"
             "[hidden_link]"]
       e o h
  show ?thesis by simp
qed

text \<open>
  C1 as the specification states it fails on a page whose only match is hidden: there is
  no visible match, and the sampler returns a measurement, not an error.
\<close>

theorem hidden_link_clicked_counterexample:
  "isVisible (Some hidden_link) = False
   \<and> querySelectorAll hidden_link_page signup_selector = [hidden_link]
   \<and> target [hidden_link] = Some hidden_link
   \<and> TRANSITION_FPS_JS hidden_link_page signup_selector ''/signup'' 1800 5000
       = Some (Inr (Measurement
           \<lparr>avgFps = 60, p95FrameMs = 17, droppedFrameRatio = 0,
            totalFrames = 3, sampleDurationMs = 50, from_path = ''/signin'',
            to_path = ''/signup'', expectedTo = ''/signup'',
            navigationDurationMs = Some 17, reachedExpectedPath = True\<rparr>))"
proof -
  have a: "isVisible (Some hidden_link) = False" by code_simp
  have b: "querySelectorAll hidden_link_page signup_selector = [hidden_link]"
    by (simp add: hidden_link_page_def)
  have c: "target [hidden_link] = Some hidden_link" by code_simp
  have d: "TRANSITION_FPS_JS hidden_link_page signup_selector ''/signup'' 1800 5000
       = Some (Inr (Measurement
           \<lparr>avgFps = 60, p95FrameMs = 17, droppedFrameRatio = 0,
            totalFrames = 3, sampleDurationMs = 50, from_path = ''/signin'',
            to_path = ''/signup'', expectedTo = ''/signup'',
            navigationDurationMs = Some 17, reachedExpectedPath = True\<rparr>))"
    by code_simp
  from a b c d show ?thesis by (simp only: simp_thms)
qed

section \<open>The navigation duration\<close>

text \<open>
  C8. In a measurement the sampler returns, navigationDurationMs is null exactly when no
  turn of the polling loop made before the deadline saw the expected path; otherwise it
  is the clock read right after the first such turn minus the clock read before the
  click, rounded to three decimals by \<open>toFixed\<close>. And the sampler does return a
  measurement when the selector matches and some turn either passes the deadline or
  sees the expected path.
\<close>

theorem navigationDurationMs_polling:
  "(TRANSITION_FPS_JS pg sel expectedPath sampleMs timeoutMs = Some (Inr (Measurement m)) \<longrightarrow>
      navigationDurationMs m =
        (case List.find (\<lambda>p. pathname p = expectedPath)
                (takeWhile (\<lambda>p. now p < navStart pg + timeoutMs) (polls pg)) of
           None \<Rightarrow> None
         | Some p \<Rightarrow> Some (toFixed (now_after p - navStart pg) 3))
      \<and> (navigationDurationMs m = None \<longleftrightarrow>
           list_all (\<lambda>p. pathname p \<noteq> expectedPath)
             (takeWhile (\<lambda>p. now p < navStart pg + timeoutMs) (polls pg))))
   \<and> (querySelectorAll pg sel \<noteq> []
        \<and> list_ex (\<lambda>p. \<not> now p < navStart pg + timeoutMs \<or> pathname p = expectedPath) (polls pg)
      \<longrightarrow> (\<exists>m'. TRANSITION_FPS_JS pg sel expectedPath sampleMs timeoutMs
                  = Some (Inr (Measurement m'))))"
proof -
  let ?within = "takeWhile (\<lambda>p. now p < navStart pg + timeoutMs) (polls pg)"
  let ?loop = "wait_for_path (navStart pg + timeoutMs) expectedPath (polls pg)"
  have first: "navigationDurationMs m =
        (case List.find (\<lambda>p. pathname p = expectedPath) ?within of
           None \<Rightarrow> None
         | Some p \<Rightarrow> Some (toFixed (now_after p - navStart pg) 3))
      \<and> (navigationDurationMs m = None \<longleftrightarrow>
           list_all (\<lambda>p. pathname p \<noteq> expectedPath) ?within)"
    if ret: "TRANSITION_FPS_JS pg sel expectedPath sampleMs timeoutMs = Some (Inr (Measurement m))"
  proof -
    have ne: "querySelectorAll pg sel \<noteq> []"
    proof
      assume "querySelectorAll pg sel = []"
      from TRANSITION_FPS_JS_no_match [OF this, of expectedPath sampleMs timeoutMs] ret
      show False by simp
    qed
    from TRANSITION_FPS_JS_match [OF ne, of expectedPath sampleMs timeoutMs] obtain s where
      shape: "TRANSITION_FPS_JS pg sel expectedPath sampleMs timeoutMs
         = map_option (\<lambda>navEnd. Inr (Measurement (measurement pg expectedPath navEnd s))) ?loop"
      by blast
    from shape ret obtain navEnd where loop: "?loop = Some navEnd"
      and m: "m = measurement pg expectedPath navEnd s"
      by (cases ?loop) simp_all
    from wait_for_path_find [OF loop]
    have navEnd: "navEnd = map_option now_after (List.find (\<lambda>p. pathname p = expectedPath) ?within)" .
    have dur: "navigationDurationMs m =
        (case navEnd of None \<Rightarrow> None | Some t \<Rightarrow> Some (toFixed (t - navStart pg) 3))"
      by (simp add: m measurement_def)
    have eq: "navigationDurationMs m =
        (case List.find (\<lambda>p. pathname p = expectedPath) ?within of
           None \<Rightarrow> None
         | Some p \<Rightarrow> Some (toFixed (now_after p - navStart pg) 3))"
      by (cases "List.find (\<lambda>p. pathname p = expectedPath) ?within") (simp_all add: dur navEnd)
    have "navigationDurationMs m = None \<longleftrightarrow>
            List.find (\<lambda>p. pathname p = expectedPath) ?within = None"
      by (cases "List.find (\<lambda>p. pathname p = expectedPath) ?within") (simp_all add: eq)
    also have "\<dots> \<longleftrightarrow> list_all (\<lambda>p. pathname p \<noteq> expectedPath) ?within"
      by (simp only: find_None_iff list_all_iff) blast
    finally show ?thesis using eq by blast
  qed
  have second: "\<exists>m'. TRANSITION_FPS_JS pg sel expectedPath sampleMs timeoutMs
                  = Some (Inr (Measurement m'))"
    if ne: "querySelectorAll pg sel \<noteq> []"
      and ex: "list_ex (\<lambda>p. \<not> now p < navStart pg + timeoutMs \<or> pathname p = expectedPath) (polls pg)"
  proof -
    from wait_for_path_returns [OF ex] obtain navEnd where loop: "?loop = Some navEnd" by blast
    from TRANSITION_FPS_JS_match [OF ne, of expectedPath sampleMs timeoutMs] obtain s where
      "TRANSITION_FPS_JS pg sel expectedPath sampleMs timeoutMs
         = map_option (\<lambda>navEnd. Inr (Measurement (measurement pg expectedPath navEnd s))) ?loop"
      by blast
    with loop show ?thesis by simp
  qed
  from first second show ?thesis by blast
qed

text \<open>
  A page that arrives at the second turn has a duration of 17 ms; one that never arrives
  before the deadline has none.
\<close>

theorem navigationDurationMs_polling_witness:
  "(\<exists>m. TRANSITION_FPS_JS quick_page signup_selector ''/signup'' 1800 5000
            = Some (Inr (Measurement m))
        \<and> navigationDurationMs m = Some 17)
   \<and> (\<exists>m. TRANSITION_FPS_JS (slow_page signup_selector ''/signin'') signup_selector ''/signup''
              1800 5000 = Some (Inr (Measurement m))
        \<and> navigationDurationMs m = None)"
proof -
  let ?slow = "slow_page signup_selector ''/signin''"
  have q1: "querySelectorAll quick_page signup_selector \<noteq> []
            \<and> list_ex (\<lambda>p. \<not> now p < navStart quick_page + 5000 \<or> pathname p = ''/signup'')
                 (polls quick_page)"
    by (simp add: quick_page_def)
  have q2: "(case List.find (\<lambda>p. pathname p = ''/signup'')
                (takeWhile (\<lambda>p. now p < navStart quick_page + 5000) (polls quick_page)) of
           None \<Rightarrow> None
         | Some p \<Rightarrow> Some (toFixed (now_after p - navStart quick_page) 3)) = Some 17"
    by code_simp
  have s1: "querySelectorAll ?slow signup_selector \<noteq> []
            \<and> list_ex (\<lambda>p. \<not> now p < navStart ?slow + 5000 \<or> pathname p = ''/signup'')
                 (polls ?slow)"
    by (simp add: slow_page_def)
  have s2: "(case List.find (\<lambda>p. pathname p = ''/signup'')
                (takeWhile (\<lambda>p. now p < navStart ?slow + 5000) (polls ?slow)) of
           None \<Rightarrow> None
         | Some p \<Rightarrow> Some (toFixed (now_after p - navStart ?slow) 3)) = None"
    by code_simp
  from navigationDurationMs_polling [of quick_page signup_selector "''/signup''" 1800 5000] q1
  obtain m where m: "TRANSITION_FPS_JS quick_page signup_selector ''/signup'' 1800 5000
            = Some (Inr (Measurement m))" by blast
  with navigationDurationMs_polling [of quick_page signup_selector "''/signup''" 1800 5000 m] q2
  have "navigationDurationMs m = Some 17" by simp
  with m have a: "\<exists>m. TRANSITION_FPS_JS quick_page signup_selector ''/signup'' 1800 5000
            = Some (Inr (Measurement m)) \<and> navigationDurationMs m = Some 17" by blast
  from navigationDurationMs_polling [of ?slow signup_selector "''/signup''" 1800 5000] s1
  obtain n where n: "TRANSITION_FPS_JS ?slow signup_selector ''/signup'' 1800 5000
            = Some (Inr (Measurement n))" by blast
  with navigationDurationMs_polling [of ?slow signup_selector "''/signup''" 1800 5000 n] s2
  have "navigationDurationMs n = None" by simp
  with n have b: "\<exists>m. TRANSITION_FPS_JS ?slow signup_selector ''/signup'' 1800 5000
            = Some (Inr (Measurement m)) \<and> navigationDurationMs m = None" by blast
  from a b show ?thesis by blast
qed

section \<open>The edges of the transition summary\<close>

lemma configured_edge_keys:
  assumes "(from_route t, to_route t, selector t) \<in> set TRANSITIONS"
  shows "edge_key t \<in> {''/signin->/signup'', ''/signup->/signin'',
                        ''/signin->/forgot-password'', ''/forgot-password->/signin''}"
proof -
  from assms have "(from_route t, to_route t) \<in> set (map (\<lambda>(a, b, c). (a, b)) TRANSITIONS)"
    by force
  then have "(from_route t, to_route t) \<in> {(''/signin'', ''/signup''), (''/signup'', ''/signin''),
       (''/signin'', ''/forgot-password''), (''/forgot-password'', ''/signin'')}"
    by (simp only: TRANSITIONS_def list.map prod.case list.set) 
  then consider "from_route t = ''/signin'' \<and> to_route t = ''/signup''"
    | "from_route t = ''/signup'' \<and> to_route t = ''/signin''"
    | "from_route t = ''/signin'' \<and> to_route t = ''/forgot-password''"
    | "from_route t = ''/forgot-password'' \<and> to_route t = ''/signin''"
    by blast
  then show ?thesis
  proof cases
    case 1
    then have "edge_key t = ''/signin->/signup''" by (simp add: edge_key_def)
    then show ?thesis by (simp only: insert_iff simp_thms)
  next
    case 2
    then have "edge_key t = ''/signup->/signin''" by (simp add: edge_key_def)
    then show ?thesis by (simp only: insert_iff simp_thms)
  next
    case 3
    then have "edge_key t = ''/signin->/forgot-password''" by (simp add: edge_key_def)
    then show ?thesis by (simp only: insert_iff simp_thms)
  next
    case 4
    then have "edge_key t = ''/forgot-password->/signin''" by (simp add: edge_key_def)
    then show ?thesis by (simp only: insert_iff simp_thms)
  qed
qed

text \<open>
  C10. Whatever the browser shows, the entries of a round the collector returns carry the
  source route, the expected route and the selector of the configured edges, in their
  order, and not the path the page reached; so every key of the transition summary is one
  of the four configured edges.
\<close>

theorem collected_edges_are_configured:
  assumes "collect_transition_rounds browser transition_rounds sampleMs timeoutMs
             = Some (Inr rounds)"
  shows "(\<forall>r \<in> set rounds.
            map (\<lambda>t. (from_route t, to_route t, selector t)) (transitions r) = TRANSITIONS)
         \<and> (\<exists>summary. aggregate_transitions rounds = Inr summary
               \<and> set (map fst summary)
                   \<subseteq> {''/signin->/signup'', ''/signup->/signin'',
                       ''/signin->/forgot-password'', ''/forgot-password->/signin''})"
proof -
  define K where "K = {''/signin->/signup'', ''/signup->/signin'',
                       ''/signin->/forgot-password'', ''/forgot-password->/signin''}"
  define summary where "summary = map (\<lambda>(k, g). (k, spec_edge_summary g)) (by_edge rounds)"
  have entries: "\<forall>r \<in> set rounds.
            map (\<lambda>t. (from_route t, to_route t, selector t)) (transitions r) = TRANSITIONS"
    using assms unfolding collect_transition_rounds_def by (rule collect_rounds_entries)
  have agg: "aggregate_transitions rounds = Inr summary"
    unfolding summary_def by (rule aggregate_transitions_eq)
  have keys: "set (map fst summary) = edge_key ` set (concat (map transitions rounds))"
    unfolding summary_def using keys_by_edge [of rounds] by (simp only: fst_mapped set_map)
  have inK: "edge_key t \<in> K" if "t \<in> set (concat (map transitions rounds))" for t
  proof -
    from that obtain r where r: "r \<in> set rounds" and t: "t \<in> set (transitions r)" by auto
    from entries r
    have eq: "map (\<lambda>t. (from_route t, to_route t, selector t)) (transitions r) = TRANSITIONS"
      by (rule bspec)
    from t have "(from_route t, to_route t, selector t)
                   \<in> set (map (\<lambda>t. (from_route t, to_route t, selector t)) (transitions r))"
      by (simp only: set_map) (rule imageI)
    then have "(from_route t, to_route t, selector t) \<in> set TRANSITIONS"
      by (simp only: eq)
    then show ?thesis unfolding K_def by (rule configured_edge_keys)
  qed
  have sub: "set (map fst summary) \<subseteq> K"
  proof
    fix k
    assume "k \<in> set (map fst summary)"
    then have "k \<in> edge_key ` set (concat (map transitions rounds))" by (simp only: keys)
    then obtain t where "t \<in> set (concat (map transitions rounds))" and "k = edge_key t"
      by (rule imageE)
    with inK show "k \<in> K" by simp
  qed
  from agg sub have "\<exists>summary. aggregate_transitions rounds = Inr summary \<and> set (map fst summary) \<subseteq> K"
    by (intro exI conjI)
  with entries show ?thesis unfolding K_def by (rule conjI)
qed

text \<open>
  In a browser where no measurement reaches its expected path, the entries still name the
  expected routes and the summary has the configured keys.
\<close>

theorem collected_edges_are_configured_witness:
  "collect_transition_rounds slow_browser 1 1800 5000 = Some (Inr slow_rounds)
   \<and> map (\<lambda>t. (to_route t, get_reachedExpectedPath (metrics t)))
         (concat (map transitions slow_rounds))
       = [(''/signup'', Some False), (''/signin'', Some False),
          (''/forgot-password'', Some False), (''/signin'', Some False)]
   \<and> (\<exists>summary. aggregate_transitions slow_rounds = Inr summary
         \<and> set (map fst summary)
             \<subseteq> {''/signin->/signup'', ''/signup->/signin'',
                 ''/signin->/forgot-password'', ''/forgot-password->/signin''})"
proof -
  have run: "collect_transition_rounds slow_browser 1 1800 5000 = Some (Inr slow_rounds)"
    by code_simp
  have reached: "map (\<lambda>t. (to_route t, get_reachedExpectedPath (metrics t)))
         (concat (map transitions slow_rounds))
       = [(''/signup'', Some False), (''/signin'', Some False),
          (''/forgot-password'', Some False), (''/signin'', Some False)]"
    by code_simp
  from collected_edges_are_configured [OF run]
  have keys: "\<exists>summary. aggregate_transitions slow_rounds = Inr summary
         \<and> set (map fst summary)
             \<subseteq> {''/signin->/signup'', ''/signup->/signin'',
                 ''/signin->/forgot-password'', ''/forgot-password->/signin''}"
    by (rule conjunct2)
  from run reached keys show ?thesis by (intro conjI)
qed

section \<open>The transition summary\<close>




end
